theory Spec2Isabelle
  imports Main "HOL-Library.Multiset"
begin

section \<open>The stream client of \<^verbatim>\<open>src/client\<close>: registry, socket and streams\<close>

text \<open>
  The second document of \<^verbatim>\<open>src/src/client/http-client.ts\<close> holds
  \<^verbatim>\<open>DefaultStreamClient\<close> (the multiplexer) and \<^verbatim>\<open>DefaultStream\<close>.
  The client keeps a plain JavaScript object \<^verbatim>\<open>streams\<close> from request id to
  stream, one \<^verbatim>\<open>Socket\<close> and the flag \<^verbatim>\<open>autoRestartStreamsOnReconnect\<close>.

  The embedding is state passing over one record. Every \<^verbatim>\<open>async\<close> method is run
  to completion before the next call starts (the caller awaits each promise); the one place
  where the code does not await, the loop of \<^verbatim>\<open>handleReconnection\<close>, is modelled
  in two phases. A thrown exception or a rejected promise is the \<open>Inl\<close> of a sum.
\<close>

subsection \<open>Messages, markers, errors\<close>

type_synonym ref = nat
  \<comment> \<open>the identity of a \<^verbatim>\<open>DefaultStream\<close> object\<close>

type_synonym handler = nat
  \<comment> \<open>the identity of a callback supplied by the caller\<close>

record StreamMarker =
  atBlockNum :: int

text \<open>
  The fields of an outbound message that the client reads or writes are \<^verbatim>\<open>req_id\<close>
  and \<^verbatim>\<open>start_block\<close>; \<open>msg_type\<close> is its \<^verbatim>\<open>type\<close> and \<open>data\<close>
  stands for everything else, which the client only copies.
\<close>

record OutboundMessage =
  msg_type :: string
  req_id :: string
  start_block :: "int option"
  data :: string

record InboundMessage =
  in_type :: string
  in_req_id :: "string option"
  in_data :: string

text \<open>
  Modelled from the spec: \<^verbatim>\<open>unlistenMessage\<close> of \<^verbatim>\<open>../message/outbound\<close>,
  which is not among the sources. The spec calls it the "unlisten"/cancellation message
  for that id; its payload is the object holding the id.
\<close>

definition unlistenMessage :: "string \<Rightarrow> OutboundMessage" where
  "unlistenMessage rid =
     \<lparr>msg_type = ''unlisten'', req_id = rid, start_block = None, data = rid\<rparr>"

text \<open>
  The code throws \<^verbatim>\<open>DfuseClientError(message, cause?)\<close> in three places; the spec
  names them by their message. \<open>Thrown\<close> is any value the socket rejects with, and
  \<open>TypeError\<close> is the run-time error of calling something that is not a function.
\<close>

datatype error =
    DfuseClientError string "error option"
  | Thrown string
  | TypeError string

definition quoted :: "string \<Rightarrow> string" where
  "quoted s = CHR 0x27 # s @ [CHR 0x27]"

definition DuplicateStreamError :: "string \<Rightarrow> error" where
  "DuplicateStreamError sid' =
     DfuseClientError
       (''A stream with id '' @ quoted sid' @
        '' is already registered, cannot register another one with the same id'')
       None"

definition RegistrationError :: "string \<Rightarrow> error \<Rightarrow> error" where
  "RegistrationError sid' cause =
     DfuseClientError (''Unable to correctly register stream '' @ quoted sid') (Some cause)"

definition StreamNotRegisteredError :: "string \<Rightarrow> error" where
  "StreamNotRegisteredError sid' =
     DfuseClientError
       (''Trying to restart a stream '' @ quoted sid' @
        '' that is not registered anymore or was never registered'')
       None"

subsection \<open>The registry: a plain object used as a dictionary\<close>

text \<open>
  \<^verbatim>\<open>public streams: { [id: string]: DefaultStream } = {}\<close> is an object literal, so
  its prototype is \<^verbatim>\<open>Object.prototype\<close>. Its own properties are kept here as an
  association list in creation order. Reading \<^verbatim>\<open>this.streams[k]\<close> finds an own
  property first and then walks the prototype chain: for the names below the read yields a
  value of \<^verbatim>\<open>Object.prototype\<close> (a function, or the prototype itself for
  \<^verbatim>\<open>__proto__\<close>), which is not \<^verbatim>\<open>undefined\<close> and is not a stream.
\<close>

definition Object_prototype_names :: "string list" where
  "Object_prototype_names =
     [''constructor'', ''hasOwnProperty'', ''isPrototypeOf'', ''propertyIsEnumerable'',
      ''toLocaleString'', ''toString'', ''valueOf'', ''__proto__'',
      ''__defineGetter__'', ''__defineSetter__'', ''__lookupGetter__'', ''__lookupSetter__'']"

datatype property = Undefined | Own ref | Inherited

type_synonym registry = "(string \<times> ref) list"

definition prop_get :: "registry \<Rightarrow> string \<Rightarrow> property" where
  "prop_get reg k =
     (case map_of reg k of
        Some r \<Rightarrow> Own r
      | None \<Rightarrow> if k \<in> set Object_prototype_names then Inherited else Undefined)"

definition prop_set :: "registry \<Rightarrow> string \<Rightarrow> ref \<Rightarrow> registry" where
  \<comment> \<open>\<^verbatim>\<open>this.streams[k] = v\<close>; the code reaches it only when the read gave \<^verbatim>\<open>undefined\<close>\<close>
  "prop_set reg k v =
     (if k \<in> fst ` set reg then map (\<lambda>(k', v'). if k' = k then (k', v) else (k', v')) reg
      else reg @ [(k, v)])"

definition prop_delete :: "registry \<Rightarrow> string \<Rightarrow> registry" where
  \<comment> \<open>\<^verbatim>\<open>delete this.streams[k]\<close>: removes an own property, nothing else\<close>
  "prop_delete reg k = filter (\<lambda>(k', _). k' \<noteq> k) reg"

text \<open>
  \<^verbatim>\<open>Object.keys\<close> lists the own enumerable string keys: the array indices (canonical
  decimal numerals below \<open>2\<^sup>3\<^sup>2 - 1\<close>) in ascending order first, then the other keys
  in creation order.
\<close>

definition is_digit :: "char \<Rightarrow> bool" where
  "is_digit c = (c \<in> set ''0123456789'')"

definition dec_value :: "string \<Rightarrow> int" where
  "dec_value s = foldl (\<lambda>n c. 10 * n + (of_char c - 48)) 0 s"

definition is_array_index :: "string \<Rightarrow> bool" where
  "is_array_index s =
     (s \<noteq> [] \<and> list_all is_digit s \<and> (s = ''0'' \<or> hd s \<noteq> CHR ''0'') \<and>
      dec_value s < 2 ^ 32 - 1)"

definition Object_entries :: "registry \<Rightarrow> (string \<times> ref) list" where
  "Object_entries reg =
     sort_key (\<lambda>(k, _). dec_value k) (filter (\<lambda>(k, _). is_array_index k) reg) @
     filter (\<lambda>(k, _). \<not> is_array_index k) reg"

definition Object_keys :: "registry \<Rightarrow> string list" where
  "Object_keys reg = map fst (Object_entries reg)"

subsection \<open>Streams, the socket and the client\<close>

text \<open>
  The closures \<^verbatim>\<open>streamExists\<close> and \<^verbatim>\<open>unregisterStream\<close> and the field
  \<^verbatim>\<open>socket\<close> of a stream all point back to the client that created it, so they are
  not fields here: the methods of a stream take the client state.
\<close>

record DefaultStream =
  sid :: string
  onPostRestart :: "handler option"
  activeMarker :: "StreamMarker option"
  registrationMessage :: OutboundMessage
  onMessageHandler :: handler

text \<open>
  Modelled from the spec: the \<^verbatim>\<open>Socket\<close> of \<^verbatim>\<open>../types/socket\<close>, an external
  collaborator that is not among the sources. It is connected or disconnected;
  \<^verbatim>\<open>connect\<close>, \<^verbatim>\<open>send\<close> and \<^verbatim>\<open>disconnect\<close> each resolve or reject.
  Which of the two happens is a parameter: \<open>outcomes\<close> lists the results of the calls
  to come (\<open>None\<close> resolves, \<open>Some e\<close> rejects with \<open>e\<close>), and a call
  beyond the list resolves. A rejected \<^verbatim>\<open>connect\<close> or \<^verbatim>\<open>disconnect\<close> leaves
  \<open>isConnected\<close> as it was.
\<close>

record Socket =
  isConnected :: bool
  outcomes :: "error option list"

datatype event =
    Connect
  | Send OutboundMessage
  | Disconnect
  | OnMessage handler InboundMessage
  | OnPostRestart handler

text \<open>
  \<open>trace\<close> is the log of what the client did to its collaborators, oldest first: the
  socket calls it made and the callbacks it invoked. Each entry also holds
  \<^verbatim>\<open>Object.keys(this.streams)\<close> at that moment, which is what an inbound message
  arriving during the call would be routed against. \<open>heap\<close> is the store of stream
  objects: the registry and the caller hold references into it.
\<close>

record StreamClient =
  streams :: registry
  socket :: Socket
  autoRestartStreamsOnReconnect :: bool
  heap :: "ref \<Rightarrow> DefaultStream"
  next_ref :: ref
  trace :: "(event \<times> string list) list"

definition log_event :: "event \<Rightarrow> StreamClient \<Rightarrow> StreamClient" where
  "log_event e c = c\<lparr>trace := trace c @ [(e, Object_keys (streams c))]\<rparr>"

definition next_outcome :: "Socket \<Rightarrow> error option \<times> Socket" where
  "next_outcome s =
     (case outcomes s of [] \<Rightarrow> (None, s) | r # rs \<Rightarrow> (r, s\<lparr>outcomes := rs\<rparr>))"

definition socket_connect :: "StreamClient \<Rightarrow> (error + unit) \<times> StreamClient" where
  "socket_connect c =
     (case next_outcome (socket c) of
        (Some e, s) \<Rightarrow> (Inl e, (log_event Connect c)\<lparr>socket := s\<rparr>)
      | (None, s) \<Rightarrow> (Inr (), (log_event Connect c)\<lparr>socket := s\<lparr>isConnected := True\<rparr>\<rparr>))"

definition socket_send :: "StreamClient \<Rightarrow> OutboundMessage \<Rightarrow> (error + unit) \<times> StreamClient" where
  "socket_send c m =
     (case next_outcome (socket c) of
        (Some e, s) \<Rightarrow> (Inl e, (log_event (Send m) c)\<lparr>socket := s\<rparr>)
      | (None, s) \<Rightarrow> (Inr (), (log_event (Send m) c)\<lparr>socket := s\<rparr>))"

definition socket_disconnect :: "StreamClient \<Rightarrow> (error + unit) \<times> StreamClient" where
  "socket_disconnect c =
     (case next_outcome (socket c) of
        (Some e, s) \<Rightarrow> (Inl e, (log_event Disconnect c)\<lparr>socket := s\<rparr>)
      | (None, s) \<Rightarrow> (Inr (), (log_event Disconnect c)\<lparr>socket := s\<lparr>isConnected := False\<rparr>\<rparr>))"

text \<open>
  \<^verbatim>\<open>createStreamClient(wsUrl, options)\<close>: the socket is the one of the options (or a new
  one), the flag defaults to \<^verbatim>\<open>true\<close> and the registry starts empty.
\<close>

definition blank_stream :: DefaultStream where
  "blank_stream =
     \<lparr>sid = [], onPostRestart = None, activeMarker = None,
      registrationMessage = \<lparr>msg_type = [], req_id = [], start_block = None, data = []\<rparr>,
      onMessageHandler = 0\<rparr>"

definition createStreamClient :: "Socket \<Rightarrow> bool option \<Rightarrow> StreamClient" where
  "createStreamClient sock autoRestart =
     \<lparr>streams = [], socket = sock,
      autoRestartStreamsOnReconnect = (case autoRestart of None \<Rightarrow> True | Some b \<Rightarrow> b),
      heap = (\<lambda>_. blank_stream), next_ref = 0, trace = []\<rparr>"

subsection \<open>DefaultStream\<close>

definition streamExists :: "StreamClient \<Rightarrow> string \<Rightarrow> bool" where
  \<comment> \<open>\<^verbatim>\<open>(streamId) => this.streams[streamId] !== undefined\<close>\<close>
  "streamExists c streamId = (prop_get (streams c) streamId \<noteq> Undefined)"

definition start :: "StreamClient \<Rightarrow> ref \<Rightarrow> (error + unit) \<times> StreamClient" where
  "start c r = socket_send c (registrationMessage (heap c r))"

definition mark :: "StreamClient \<Rightarrow> ref \<Rightarrow> StreamMarker \<Rightarrow> StreamClient" where
  "mark c r options =
     c\<lparr>heap := fun_upd (heap c) r ((heap c r)\<lparr>activeMarker := Some options\<rparr>)\<rparr>"

definition currentActiveMarker :: "StreamClient \<Rightarrow> ref \<Rightarrow> StreamMarker option" where
  "currentActiveMarker c r = activeMarker (heap c r)"

text \<open>
  \<^verbatim>\<open>restart\<close> up to its \<^verbatim>\<open>await\<close>: the membership check, the copy of the
  registration message with its \<^verbatim>\<open>start_block\<close> overwritten, and the call of
  \<^verbatim>\<open>socket.send\<close>. \<^verbatim>\<open>if (marker)\<close> tests the marker object, which is truthy
  whenever it is given.
\<close>

definition restart_send ::
  "StreamClient \<Rightarrow> ref \<Rightarrow> StreamMarker option \<Rightarrow> (error + unit) \<times> StreamClient" where
  "restart_send c r marker =
     (let this = heap c r in
      if \<not> streamExists c (sid this) then (Inl (StreamNotRegisteredError (sid this)), c)
      else
        let restartMessage =
              (case marker of
                 Some m \<Rightarrow> (registrationMessage this)\<lparr>start_block := Some (atBlockNum m)\<rparr>
               | None \<Rightarrow>
                   (case activeMarker this of
                      Some m \<Rightarrow> (registrationMessage this)\<lparr>start_block := Some (atBlockNum m)\<rparr>
                    | None \<Rightarrow> registrationMessage this))
        in socket_send c restartMessage)"

text \<open>What \<^verbatim>\<open>restart\<close> does once the send has resolved.\<close>

definition restart_resume :: "StreamClient \<Rightarrow> ref \<Rightarrow> StreamClient" where
  "restart_resume c r =
     (case onPostRestart (heap c r) of
        Some h \<Rightarrow> log_event (OnPostRestart h) c
      | None \<Rightarrow> c)"

definition restart ::
  "StreamClient \<Rightarrow> ref \<Rightarrow> StreamMarker option \<Rightarrow> (error + unit) \<times> StreamClient" where
  "restart c r marker =
     (case restart_send c r marker of
        (Inl e, c') \<Rightarrow> (Inl e, c')
      | (Inr _, c') \<Rightarrow> (Inr (), restart_resume c' r))"

subsection \<open>DefaultStreamClient\<close>

definition unregisterStream :: "StreamClient \<Rightarrow> string \<Rightarrow> (error + unit) \<times> StreamClient" where
  "unregisterStream c sid' =
     (if prop_get (streams c) sid' = Undefined then (Inr (), c)
      else
        let message = unlistenMessage sid';
            c1 = c\<lparr>streams := prop_delete (streams c) sid'\<rparr>
        in case socket_send c1 message of
             (Inl e, c2) \<Rightarrow> (Inl e, c2)
           | (Inr _, c2) \<Rightarrow>
               if length (Object_keys (streams c2)) \<le> 0 then socket_disconnect c2
               else (Inr (), c2))"

definition registerStream ::
  "StreamClient \<Rightarrow> OutboundMessage \<Rightarrow> handler \<Rightarrow> (error + ref) \<times> StreamClient" where
  "registerStream c message onMessage =
     (case (if length (Object_keys (streams c)) = 0 then socket_connect c else (Inr (), c)) of
        (Inl e, c1) \<Rightarrow> (Inl e, c1)
      | (Inr _, c1) \<Rightarrow>
          let sid' = req_id message in
          if prop_get (streams c1) sid' \<noteq> Undefined then (Inl (DuplicateStreamError sid'), c1)
          else
            let stream = \<lparr>sid = sid', onPostRestart = None, activeMarker = None,
                          registrationMessage = message, onMessageHandler = onMessage\<rparr>;
                r = next_ref c1;
                c2 = c1\<lparr>heap := fun_upd (heap c1) r stream, next_ref := Suc r\<rparr>;
                c3 = c2\<lparr>streams := prop_set (streams c2) sid' r\<rparr>
            in (case start c3 r of
                  (Inl e, c4) \<Rightarrow>
                    (Inl (RegistrationError sid' e), c4\<lparr>streams := prop_delete (streams c4) sid'\<rparr>)
                | (Inr _, c4) \<Rightarrow> (Inr r, c4)))"

text \<open>
  \<^verbatim>\<open>handleMessage\<close>: \<^verbatim>\<open>message.req_id || ""\<close> is the empty string for a missing
  id. A callback is opaque to the client; its invocation is an entry of the trace. When
  the read yields an inherited value, \<^verbatim>\<open>stream.onMessage\<close> is \<^verbatim>\<open>undefined\<close>
  and calling it throws.
\<close>

definition handleMessage :: "StreamClient \<Rightarrow> InboundMessage \<Rightarrow> (error + unit) \<times> StreamClient" where
  "handleMessage c message =
     (case prop_get (streams c) (case in_req_id message of None \<Rightarrow> [] | Some k \<Rightarrow> k) of
        Undefined \<Rightarrow> (Inr (), c)
      | Own r \<Rightarrow> (Inr (), log_event (OnMessage (onMessageHandler (heap c r)) message) c)
      | Inherited \<Rightarrow> (Inl (TypeError ''stream.onMessage is not a function''), c))"

text \<open>
  \<^verbatim>\<open>handleReconnection\<close> calls \<^verbatim>\<open>restart()\<close> on the stream of every key and
  drops the promise. Each call runs up to its \<^verbatim>\<open>await\<close> inside the loop (that is
  \<open>restart_send\<close>, whose result is kept in \<open>started\<close>); an error it raises rejects
  the dropped promise and never reaches the loop. Nothing in the loop changes the
  registry, so \<^verbatim>\<open>this.streams[streamId]\<close> is the value listed with the key. The
  restarts whose send resolved resume afterwards, here in the order of their sends. What
  the run-time does with a rejected promise that nobody handles is outside the client.
\<close>

fun restart_each ::
  "StreamClient \<Rightarrow> (string \<times> ref) list \<Rightarrow> (ref \<times> (error + unit)) list \<times> StreamClient" where
  "restart_each c [] = ([], c)"
| "restart_each c ((streamId, r) # rest) =
     (case restart_send c r None of
        (res, c1) \<Rightarrow> (case restart_each c1 rest of (started, c2) \<Rightarrow> ((r, res) # started, c2)))"

fun resume_each :: "StreamClient \<Rightarrow> (ref \<times> (error + unit)) list \<Rightarrow> StreamClient" where
  "resume_each c [] = c"
| "resume_each c ((r, Inl e) # rest) = resume_each c rest"
| "resume_each c ((r, Inr u) # rest) = resume_each (restart_resume c r) rest"

definition handleReconnection :: "StreamClient \<Rightarrow> StreamClient" where
  "handleReconnection c =
     (if autoRestartStreamsOnReconnect c = False then c
      else case restart_each c (Object_entries (streams c)) of
             (started, c1) \<Rightarrow> resume_each c1 started)"

definition close :: "StreamClient \<Rightarrow> ref \<Rightarrow> (error + unit) \<times> StreamClient" where
  "close c r =
     (if isConnected (socket c) then unregisterStream c (sid (heap c r)) else (Inr (), c))"

text \<open>\<^verbatim>\<open>release\<close> disconnects the socket and only logs a rejection.\<close>

definition release :: "StreamClient \<Rightarrow> StreamClient" where
  "release c = snd (socket_disconnect c)"

section \<open>Runs, observations and the registry invariant\<close>

text \<open>The messages handed to \<^verbatim>\<open>socket.send\<close>, in the order of the calls.\<close>

fun sent_messages :: "(event \<times> string list) list \<Rightarrow> OutboundMessage list" where
  "sent_messages [] = []"
| "sent_messages ((Send m, ks) # t) = m # sent_messages t"
| "sent_messages (_ # t) = sent_messages t"

text \<open>
  A caller's sequence of \<^verbatim>\<open>registerStream\<close> and \<^verbatim>\<open>unregisterStream\<close> calls,
  each awaited before the next. \<open>registered\<close> counts the registrations that resolved,
  \<open>unregistered\<close> the \<^verbatim>\<open>unregisterStream\<close> calls whose id had a record when the
  call was made, and \<open>all_resolved\<close> says that no call of the sequence was rejected.
\<close>

datatype call = Register OutboundMessage handler | Unregister string

fun perform :: "StreamClient \<Rightarrow> call \<Rightarrow> (error + unit) \<times> StreamClient" where
  "perform c (Register message onMessage) =
     (case registerStream c message onMessage of
        (Inl e, c') \<Rightarrow> (Inl e, c')
      | (Inr _, c') \<Rightarrow> (Inr (), c'))"
| "perform c (Unregister sid') = unregisterStream c sid'"

fun run :: "StreamClient \<Rightarrow> call list \<Rightarrow> StreamClient" where
  "run c [] = c"
| "run c (x # xs) = run (snd (perform c x)) xs"

fun counts_as_registered :: "StreamClient \<Rightarrow> call \<Rightarrow> bool" where
  "counts_as_registered c (Register message onMessage) =
     (case fst (registerStream c message onMessage) of Inl _ \<Rightarrow> False | Inr _ \<Rightarrow> True)"
| "counts_as_registered c (Unregister sid') = False"

fun counts_as_unregistered :: "StreamClient \<Rightarrow> call \<Rightarrow> bool" where
  "counts_as_unregistered c (Register message onMessage) = False"
| "counts_as_unregistered c (Unregister sid') = (map_of (streams c) sid' \<noteq> None)"

fun registered :: "StreamClient \<Rightarrow> call list \<Rightarrow> nat" where
  "registered c [] = 0"
| "registered c (x # xs) =
     (if counts_as_registered c x then 1 else 0) + registered (snd (perform c x)) xs"

fun unregistered :: "StreamClient \<Rightarrow> call list \<Rightarrow> nat" where
  "unregistered c [] = 0"
| "unregistered c (x # xs) =
     (if counts_as_unregistered c x then 1 else 0) + unregistered (snd (perform c x)) xs"

fun all_resolved :: "StreamClient \<Rightarrow> call list \<Rightarrow> bool" where
  "all_resolved c [] = True"
| "all_resolved c (x # xs) =
     ((case fst (perform c x) of Inl _ \<Rightarrow> False | Inr _ \<Rightarrow> True) \<and>
      all_resolved (snd (perform c x)) xs)"

text \<open>
  What holds of the registry in every state the client can reach: a key occurs once, the
  record filed under a key is an allocated stream whose \<^verbatim>\<open>id\<close> is that key, and
  the \<^verbatim>\<open>id\<close> of an allocated stream is the \<^verbatim>\<open>req_id\<close> of its registration
  message and none of the inherited names (\<^verbatim>\<open>registerStream\<close> throws before it
  creates such a stream).
\<close>

definition wellformed :: "StreamClient \<Rightarrow> bool" where
  "wellformed c \<longleftrightarrow>
     distinct (map fst (streams c)) \<and>
     (\<forall>(k, r) \<in> set (streams c). r < next_ref c \<and> sid (heap c r) = k) \<and>
     (\<forall>r \<in> set [0..<next_ref c].
        sid (heap c r) \<notin> set Object_prototype_names \<and>
        req_id (registrationMessage (heap c r)) = sid (heap c r))"

subsection \<open>Inputs used to instantiate the theorems\<close>

definition chain1 :: OutboundMessage where
  "chain1 =
     \<lparr>msg_type = ''get_table_rows'', req_id = ''chain.1'', start_block = Some 0,
      data = ''eosio.token/accounts''\<rparr>"

definition chain2 :: OutboundMessage where
  "chain2 =
     \<lparr>msg_type = ''get_action_traces'', req_id = ''chain.2'', start_block = None,
      data = ''eosio.token/transfer''\<rparr>"

definition new_socket :: "error option list \<Rightarrow> Socket" where
  "new_socket rs = \<lparr>isConnected = False, outcomes = rs\<rparr>"

definition reliable_client :: StreamClient where
  "reliable_client = createStreamClient (new_socket []) None"

text \<open>
  Clients whose socket connects and then rejects its first, its second or its third send.
\<close>

definition socket_closed :: error where
  "socket_closed = Thrown ''socket closed''"

definition flaky_client :: StreamClient where
  "flaky_client = createStreamClient (new_socket [None, Some socket_closed]) None"

definition fragile_client :: StreamClient where
  "fragile_client = createStreamClient (new_socket [None, None, Some socket_closed]) None"

definition unstable_client :: StreamClient where
  "unstable_client =
     createStreamClient (new_socket [None, None, None, Some socket_closed]) None"

definition position5 :: StreamMarker where
  "position5 = \<lparr>atBlockNum = 5\<rparr>"

definition table_delta :: InboundMessage where
  "table_delta = \<lparr>in_type = ''table_delta'', in_req_id = Some ''chain.1'', in_data = []\<rparr>"

definition stray_error :: InboundMessage where
  "stray_error = \<lparr>in_type = ''error'', in_req_id = Some ''constructor'', in_data = []\<rparr>"

section \<open>Properties of the registry and the socket\<close>

lemmas socket_defs =
  socket_send_def socket_connect_def socket_disconnect_def next_outcome_def log_event_def

lemmas eval_defs =
  registerStream_def unregisterStream_def createStreamClient_def Object_keys_def
  Object_entries_def prop_get_def Object_prototype_names_def prop_set_def prop_delete_def
  start_def socket_defs is_array_index_def is_digit_def dec_value_def unlistenMessage_def Let_def

lemma map_of_prop_delete: "map_of (prop_delete reg k) k = None"
  by (induction reg) (auto simp: prop_delete_def)

lemma prop_delete_absent: "map_of reg k = None \<Longrightarrow> prop_delete reg k = reg"
  by (induction reg) (auto simp: prop_delete_def split: if_splits)

lemma prop_set_absent: "map_of reg k = None \<Longrightarrow> prop_set reg k v = reg @ [(k, v)]"
  by (auto simp: prop_set_def map_of_eq_None_iff)

lemma prop_delete_append_new: "map_of reg k = None \<Longrightarrow> prop_delete (reg @ [(k, v)]) k = reg"
  using prop_delete_absent [of reg k] by (simp add: prop_delete_def)

lemma prop_delete_single: "prop_delete [(k, v)] k = []"
  by (simp add: prop_delete_def)

lemma length_Object_entries: "length (Object_entries reg) = length reg"
proof -
  have "length (filter (\<lambda>(k, _). is_array_index k) reg) +
        length (filter (\<lambda>(k, _). \<not> is_array_index k) reg) = length reg"
    by (induction reg) auto
  then show ?thesis by (simp add: Object_entries_def)
qed

lemma length_Object_keys: "length (Object_keys reg) = length reg"
  by (simp add: Object_keys_def length_Object_entries)

lemma set_Object_entries: "set (Object_entries reg) = set reg"
  by (auto simp: Object_entries_def)

lemma set_Object_keys: "set (Object_keys reg) = fst ` set reg"
  by (simp add: Object_keys_def set_Object_entries)

lemma prop_get_Undefined:
  "prop_get reg k = Undefined \<longleftrightarrow> map_of reg k = None \<and> k \<notin> set Object_prototype_names"
  by (simp add: prop_get_def split: option.splits)

lemma prop_get_Own: "prop_get reg k = Own r \<longleftrightarrow> map_of reg k = Some r"
  by (auto simp add: prop_get_def split: option.splits)

lemma length_prop_delete:
  "distinct (map fst reg) \<Longrightarrow>
     length (prop_delete reg k) + (if map_of reg k \<noteq> None then 1 else 0) = length reg"
proof (induction reg)
  case Nil
  then show ?case by (simp add: prop_delete_def)
next
  case (Cons a reg)
  obtain k' v where a: "a = (k', v)" by (cases a)
  show ?case
  proof (cases "k' = k")
    case True
    with Cons.prems a have "map_of reg k = None"
      by (simp add: map_of_eq_None_iff)
    then have "prop_delete reg k = reg" by (rule prop_delete_absent)
    then have "filter (\<lambda>(k', _). k' \<noteq> k) reg = reg" by (simp add: prop_delete_def)
    with True a show ?thesis by (simp add: prop_delete_def)
  next
    case False
    with Cons a show ?thesis by (simp add: prop_delete_def)
  qed
qed

lemma distinct_prop_delete: "distinct (map fst reg) \<Longrightarrow> distinct (map fst (prop_delete reg k))"
  by (simp add: prop_delete_def distinct_map_filter)

section \<open>What one call does to the registry and to the connection\<close>

lemma registerStream_streams:
  "streams (snd (registerStream c message onMessage)) =
     (case fst (registerStream c message onMessage) of
        Inl _ \<Rightarrow> streams c
      | Inr r \<Rightarrow> streams c @ [(req_id message, r)])"
  by (auto simp: registerStream_def start_def socket_defs Let_def prop_get_Undefined
      prop_set_absent prop_delete_append_new prop_delete_single
      split: list.splits option.splits prod.splits sum.splits if_splits)

lemma registerStream_Inr_absent:
  "fst (registerStream c message onMessage) = Inr r \<Longrightarrow>
     map_of (streams c) (req_id message) = None"
  by (auto simp: registerStream_def start_def socket_defs Let_def prop_get_Undefined
      split: list.splits option.splits prod.splits sum.splits if_splits)

lemma unregisterStream_streams:
  "streams (snd (unregisterStream c k)) = prop_delete (streams c) k"
  by (auto simp: unregisterStream_def socket_defs Let_def prop_get_Undefined prop_delete_absent
      split: list.splits option.splits prod.splits sum.splits if_splits)

lemma registerStream_Inr_connected:
  "fst (registerStream c message onMessage) = Inr r \<Longrightarrow>
   streams c \<noteq> [] \<longrightarrow> isConnected (socket c) \<Longrightarrow>
     isConnected (socket (snd (registerStream c message onMessage)))"
  by (auto simp: registerStream_def start_def socket_defs Let_def length_Object_keys
      split: list.splits option.splits prod.splits sum.splits if_splits)

lemma registerStream_stays_connected:
  "isConnected (socket c) \<Longrightarrow> isConnected (socket (snd (registerStream c message onMessage)))"
  by (auto simp: registerStream_def start_def socket_defs Let_def length_Object_keys
      split: list.splits option.splits prod.splits sum.splits if_splits)

lemma unregisterStream_stays_connected:
  "isConnected (socket c) \<Longrightarrow> prop_delete (streams c) k \<noteq> [] \<Longrightarrow>
     isConnected (socket (snd (unregisterStream c k)))"
  by (auto simp: unregisterStream_def socket_defs Let_def length_Object_keys
      split: list.splits option.splits prod.splits sum.splits if_splits)

lemma unregisterStream_resolved_connected:
  "fst (unregisterStream c k) = Inr u \<Longrightarrow> isConnected (socket c) \<longleftrightarrow> streams c \<noteq> [] \<Longrightarrow>
     isConnected (socket (snd (unregisterStream c k))) \<longleftrightarrow> prop_delete (streams c) k \<noteq> []"
  by (auto simp: unregisterStream_def socket_defs Let_def length_Object_keys prop_get_Undefined
      prop_delete_absent
      split: list.splits option.splits prod.splits sum.splits if_splits)

subsection \<open>Sequences of calls\<close>

lemma perform_Register_snd:
  "snd (perform c (Register message onMessage)) = snd (registerStream c message onMessage)"
  by (simp split: prod.splits sum.splits)

lemma perform_Register_fst:
  "fst (perform c (Register message onMessage)) =
     (case fst (registerStream c message onMessage) of Inl e \<Rightarrow> Inl e | Inr _ \<Rightarrow> Inr ())"
  by (simp split: prod.splits sum.splits)

lemmas perform_Register = perform_Register_fst perform_Register_snd

lemma perform_distinct:
  assumes "distinct (map fst (streams c))"
  shows "distinct (map fst (streams (snd (perform c x))))"
proof (cases x)
  case (Register message onMessage)
  show ?thesis
  proof (cases "fst (registerStream c message onMessage)")
    case (Inl e)
    with assms Register show ?thesis
      by (simp add: registerStream_streams perform_Register del: perform.simps)
  next
    case (Inr r)
    then have "map_of (streams c) (req_id message) = None" by (rule registerStream_Inr_absent)
    then have "req_id message \<notin> fst ` set (streams c)" by (simp add: map_of_eq_None_iff)
    with assms Register Inr show ?thesis
      by (simp add: registerStream_streams perform_Register del: perform.simps)
  qed
next
  case (Unregister k)
  with assms show ?thesis by (simp add: unregisterStream_streams distinct_prop_delete)
qed

lemma perform_count:
  assumes "distinct (map fst (streams c))"
  shows "length (streams (snd (perform c x))) + (if counts_as_unregistered c x then 1 else 0) =
         length (streams c) + (if counts_as_registered c x then 1 else 0)"
proof (cases x)
  case (Register message onMessage)
  then show ?thesis
    by (cases "fst (registerStream c message onMessage)")
       (simp_all add: registerStream_streams perform_Register del: perform.simps)
next
  case (Unregister k)
  with length_prop_delete [OF assms, of k] show ?thesis
    by (simp add: unregisterStream_streams)
qed

lemma run_count:
  "distinct (map fst (streams c)) \<Longrightarrow>
     length (streams (run c xs)) + unregistered c xs = length (streams c) + registered c xs"
proof (induction xs arbitrary: c)
  case Nil
  then show ?case by simp
next
  case (Cons x xs)
  have d: "distinct (map fst (streams (snd (perform c x))))"
    using Cons.prems by (rule perform_distinct)
  from Cons.IH [OF d] perform_count [OF Cons.prems, of x]
  show ?case by (simp del: perform.simps counts_as_registered.simps counts_as_unregistered.simps)
qed

lemma perform_connected_if_nonempty:
  assumes "streams c \<noteq> [] \<longrightarrow> isConnected (socket c)"
  shows "streams (snd (perform c x)) \<noteq> [] \<longrightarrow> isConnected (socket (snd (perform c x)))"
proof (cases x)
  case (Register message onMessage)
  show ?thesis
  proof (cases "fst (registerStream c message onMessage)")
    case (Inl e)
    with assms Register registerStream_stays_connected [of c message onMessage] show ?thesis
      by (auto simp add: registerStream_streams perform_Register simp del: perform.simps)
  next
    case (Inr r)
    with assms Register registerStream_Inr_connected [of c message onMessage r] show ?thesis
      by (auto simp add: perform_Register simp del: perform.simps)
  qed
next
  case (Unregister k)
  show ?thesis
  proof
    assume ne: "streams (snd (perform c x)) \<noteq> []"
    with Unregister have pd: "prop_delete (streams c) k \<noteq> []"
      by (simp add: unregisterStream_streams)
    then have "streams c \<noteq> []" by (auto simp: prop_delete_def)
    with assms have "isConnected (socket c)" by simp
    with pd Unregister show "isConnected (socket (snd (perform c x)))"
      by (simp add: unregisterStream_stays_connected)
  qed
qed

lemma run_connected_if_nonempty:
  "streams c \<noteq> [] \<longrightarrow> isConnected (socket c) \<Longrightarrow>
     streams (run c xs) \<noteq> [] \<longrightarrow> isConnected (socket (run c xs))"
proof (induction xs arbitrary: c)
  case Nil
  then show ?case by simp
next
  case (Cons x xs)
  from Cons.IH [OF perform_connected_if_nonempty [OF Cons.prems, of x]]
  show ?case by (simp del: perform.simps)
qed

lemma perform_resolved_connected:
  assumes "isConnected (socket c) \<longleftrightarrow> streams c \<noteq> []"
    and "fst (perform c x) = Inr u"
  shows "isConnected (socket (snd (perform c x))) \<longleftrightarrow> streams (snd (perform c x)) \<noteq> []"
proof (cases x)
  case (Register message onMessage)
  with assms(2) obtain r where r: "fst (registerStream c message onMessage) = Inr r"
    by (auto simp add: perform_Register simp del: perform.simps split: sum.splits)
  with assms(1) have "isConnected (socket (snd (registerStream c message onMessage)))"
    by (simp add: registerStream_Inr_connected)
  with r Register show ?thesis
    by (simp add: registerStream_streams perform_Register del: perform.simps)
next
  case (Unregister k)
  with assms unregisterStream_resolved_connected [of c k u] show ?thesis
    by (simp add: unregisterStream_streams)
qed

lemma run_resolved_connected:
  "isConnected (socket c) \<longleftrightarrow> streams c \<noteq> [] \<Longrightarrow> all_resolved c xs \<Longrightarrow>
     isConnected (socket (run c xs)) \<longleftrightarrow> streams (run c xs) \<noteq> []"
proof (induction xs arbitrary: c)
  case Nil
  then show ?case by simp
next
  case (Cons x xs)
  from Cons.prems(2) obtain u where u: "fst (perform c x) = Inr u"
    and rest: "all_resolved (snd (perform c x)) xs"
    by (auto simp del: perform.simps split: sum.splits)
  from Cons.IH [OF perform_resolved_connected [OF Cons.prems(1) u] rest]
  show ?case by (simp del: perform.simps)
qed

section \<open>Frames: what the calls leave as it was\<close>

lemma Object_keys_Nil: "Object_keys [] = []"
  by (simp add: Object_keys_def Object_entries_def)

lemma mset_Object_entries: "mset (Object_entries reg) = mset reg"
  by (simp add: Object_entries_def)

lemma key_in_Object_keys_snoc: "k \<in> set (Object_keys (reg @ [(k, v)]))"
  by (simp add: set_Object_keys)

lemma key_notin_Object_keys_prop_delete: "k \<notin> set (Object_keys (prop_delete reg k))"
  by (auto simp: set_Object_keys prop_delete_def)

lemma sent_messages_append: "sent_messages (a @ b) = sent_messages a @ sent_messages b"
  by (induction a rule: sent_messages.induct) simp_all

lemma socket_send_frame:
  "streams (snd (socket_send c m)) = streams c"
  "next_ref (snd (socket_send c m)) = next_ref c"
  "heap (snd (socket_send c m)) = heap c"
  "autoRestartStreamsOnReconnect (snd (socket_send c m)) = autoRestartStreamsOnReconnect c"
  by (simp_all add: socket_defs split: list.splits option.splits)

lemma socket_send_trace:
  "trace (snd (socket_send c m)) = trace c @ [(Send m, Object_keys (streams c))]"
  by (simp add: socket_defs split: list.splits option.splits)

lemma restart_send_frame:
  "streams (snd (restart_send c r marker)) = streams c"
  "next_ref (snd (restart_send c r marker)) = next_ref c"
  "heap (snd (restart_send c r marker)) = heap c"
  "autoRestartStreamsOnReconnect (snd (restart_send c r marker)) = autoRestartStreamsOnReconnect c"
  by (simp_all add: restart_send_def Let_def socket_send_frame)

lemma restart_resume_frame:
  "streams (restart_resume c r) = streams c"
  "next_ref (restart_resume c r) = next_ref c"
  "heap (restart_resume c r) = heap c"
  "autoRestartStreamsOnReconnect (restart_resume c r) = autoRestartStreamsOnReconnect c"
  by (simp_all add: restart_resume_def log_event_def split: option.splits)

lemma restart_resume_sent: "sent_messages (trace (restart_resume c r)) = sent_messages (trace c)"
  by (simp add: restart_resume_def log_event_def sent_messages_append split: option.splits)

lemma restart_frame:
  "streams (snd (restart c r marker)) = streams c"
  "next_ref (snd (restart c r marker)) = next_ref c"
  "heap (snd (restart c r marker)) = heap c"
proof -
  obtain res c' where rs: "restart_send c r marker = (res, c')"
    by (cases "restart_send c r marker")
  from restart_send_frame [of c r marker] rs
  have "streams c' = streams c" "next_ref c' = next_ref c" "heap c' = heap c" by simp_all
  with rs show "streams (snd (restart c r marker)) = streams c"
    "next_ref (snd (restart c r marker)) = next_ref c"
    "heap (snd (restart c r marker)) = heap c"
    by (cases res; simp add: restart_def restart_resume_frame)+
qed

lemma unregisterStream_frame:
  "next_ref (snd (unregisterStream c k)) = next_ref c"
  "heap (snd (unregisterStream c k)) = heap c"
  by (auto simp: unregisterStream_def socket_defs Let_def
      split: list.splits option.splits prod.splits sum.splits if_splits)

text \<open>
  \<^verbatim>\<open>registerStream\<close> either allocates nothing and fails, or allocates one stream
  at the next reference, with the id and the message it was given.
\<close>

lemma registerStream_frame:
  "next_ref (snd (registerStream c message onMessage)) = next_ref c \<and>
     heap (snd (registerStream c message onMessage)) = heap c \<and>
     (\<forall>r. fst (registerStream c message onMessage) \<noteq> Inr r) \<or>
   next_ref (snd (registerStream c message onMessage)) = Suc (next_ref c) \<and>
     heap (snd (registerStream c message onMessage)) =
       (heap c)(next_ref c :=
          \<lparr>sid = req_id message, onPostRestart = None, activeMarker = None,
           registrationMessage = message, onMessageHandler = onMessage\<rparr>) \<and>
     prop_get (streams c) (req_id message) = Undefined \<and>
     (\<forall>r. fst (registerStream c message onMessage) = Inr r \<longrightarrow> r = next_ref c)"
  by (auto simp: registerStream_def start_def socket_defs Let_def
      split: list.splits option.splits prod.splits sum.splits if_splits)

section \<open>The invariant holds in every reachable state\<close>

lemma wellformed_createStreamClient: "wellformed (createStreamClient sock autoRestart)"
  by (simp add: wellformed_def createStreamClient_def)

lemma wellformed_frame:
  assumes "wellformed c"
    and "streams c' = streams c" and "next_ref c' = next_ref c"
    and "\<And>r. sid (heap c' r) = sid (heap c r)"
    and "\<And>r. registrationMessage (heap c' r) = registrationMessage (heap c r)"
  shows "wellformed c'"
  using assms by (simp add: wellformed_def)

lemma wellformed_restart: "wellformed c \<Longrightarrow> wellformed (snd (restart c r marker))"
  by (erule wellformed_frame) (simp_all add: restart_frame)

lemma wellformed_mark: "wellformed c \<Longrightarrow> wellformed (mark c r options)"
  by (erule wellformed_frame) (simp_all add: mark_def)

lemma wellformed_handleMessage: "wellformed c \<Longrightarrow> wellformed (snd (handleMessage c message))"
  by (erule wellformed_frame)
     (simp_all add: handleMessage_def log_event_def split: property.splits)

lemma wellformed_unregisterStream:
  assumes "wellformed c"
  shows "wellformed (snd (unregisterStream c k))"
  using assms
  unfolding wellformed_def unregisterStream_streams unregisterStream_frame
  by (auto simp: prop_delete_def distinct_map_filter)

lemma wellformed_registerStream:
  assumes "wellformed c"
  shows "wellformed (snd (registerStream c message onMessage))"
proof -
  let ?c' = "snd (registerStream c message onMessage)"
  from registerStream_frame [of c message onMessage]
  consider
    (same) "next_ref ?c' = next_ref c" "heap ?c' = heap c"
      "\<forall>r. fst (registerStream c message onMessage) \<noteq> Inr r"
  | (new) "next_ref ?c' = Suc (next_ref c)"
      "heap ?c' = (heap c)(next_ref c :=
          \<lparr>sid = req_id message, onPostRestart = None, activeMarker = None,
           registrationMessage = message, onMessageHandler = onMessage\<rparr>)"
      "prop_get (streams c) (req_id message) = Undefined"
      "\<forall>r. fst (registerStream c message onMessage) = Inr r \<longrightarrow> r = next_ref c"
    by blast
  then show ?thesis
  proof cases
    case same
    then have "streams ?c' = streams c"
      by (cases "fst (registerStream c message onMessage)")
         (simp_all add: registerStream_streams)
    with same assms show ?thesis by (simp add: wellformed_def)
  next
    case new
    from new(3) have absent: "req_id message \<notin> fst ` set (streams c)"
      and ni: "req_id message \<notin> set Object_prototype_names"
      by (simp_all add: prop_get_Undefined map_of_eq_None_iff)
    from assms have below: "\<forall>(k, r) \<in> set (streams c). r < next_ref c \<and> sid (heap c r) = k"
      by (simp add: wellformed_def)
    show ?thesis
    proof (cases "fst (registerStream c message onMessage)")
      case (Inl e)
      then have "streams ?c' = streams c" by (simp add: registerStream_streams)
      with new assms ni below show ?thesis
        by (auto simp: wellformed_def less_Suc_eq)
    next
      case (Inr r)
      with new(4) have "r = next_ref c" by simp
      with Inr have "streams ?c' = streams c @ [(req_id message, next_ref c)]"
        by (simp add: registerStream_streams)
      with new assms ni below absent show ?thesis
        by (auto simp: wellformed_def less_Suc_eq)
    qed
  qed
qed

lemma wellformed_perform: "wellformed c \<Longrightarrow> wellformed (snd (perform c x))"
  by (cases x)
     (simp_all add: perform_Register wellformed_registerStream wellformed_unregisterStream
        del: perform.simps(1))

lemma wellformed_run: "wellformed c \<Longrightarrow> wellformed (run c xs)"
  by (induction xs arbitrary: c) (simp_all add: wellformed_perform del: perform.simps)

section \<open>Restarting on reconnection\<close>

lemma restart_send_sent:
  "streamExists c (sid (heap c r)) \<Longrightarrow>
     sent_messages (trace (snd (restart_send c r None))) =
       sent_messages (trace c) @
       [(registrationMessage (heap c r))
          \<lparr>start_block :=
             (case activeMarker (heap c r) of
                Some m \<Rightarrow> Some (atBlockNum m)
              | None \<Rightarrow> start_block (registrationMessage (heap c r)))\<rparr>]"
  by (simp add: restart_send_def Let_def socket_send_trace sent_messages_append
      split: option.splits)

lemma restart_each_Cons_snd:
  "snd (restart_each c ((k, r) # es)) = snd (restart_each (snd (restart_send c r None)) es)"
  by (simp split: prod.splits)

lemma handleReconnection_eq:
  "handleReconnection c =
     (if autoRestartStreamsOnReconnect c = False then c
      else resume_each (snd (restart_each c (Object_entries (streams c))))
             (fst (restart_each c (Object_entries (streams c)))))"
  by (simp add: handleReconnection_def split: prod.splits)

lemma restart_each_frame:
  "streams (snd (restart_each c es)) = streams c \<and>
   next_ref (snd (restart_each c es)) = next_ref c \<and>
   heap (snd (restart_each c es)) = heap c \<and>
   autoRestartStreamsOnReconnect (snd (restart_each c es)) = autoRestartStreamsOnReconnect c"
proof (induction es arbitrary: c)
  case Nil
  then show ?case by simp
next
  case (Cons e es)
  obtain k r where e: "e = (k, r)" by (cases e)
  from Cons [of "snd (restart_send c r None)"] restart_send_frame [of c r None] e
  show ?case by (simp add: restart_each_Cons_snd del: restart_each.simps)
qed

text \<open>
  The sends of the loop, whatever each of them resolves or rejects with: one per entry,
  in the order of the entries, each the stream's registration message with the stream's
  marker, if it has one, as start position.
\<close>

lemma restart_each_sent:
  assumes "\<forall>(k, r) \<in> set es. streamExists c (sid (heap c r))"
  shows "sent_messages (trace (snd (restart_each c es))) =
           sent_messages (trace c) @
           map (\<lambda>(k, r). (registrationMessage (heap c r))
                  \<lparr>start_block :=
                     (case activeMarker (heap c r) of
                        Some m \<Rightarrow> Some (atBlockNum m)
                      | None \<Rightarrow> start_block (registrationMessage (heap c r)))\<rparr>) es"
  using assms
proof (induction es arbitrary: c)
  case Nil
  then show ?case by simp
next
  case (Cons e es)
  obtain k r where e: "e = (k, r)" by (cases e)
  let ?c1 = "snd (restart_send c r None)"
  have fr: "streams ?c1 = streams c" "heap ?c1 = heap c"
    by (simp_all add: restart_send_frame)
  then have ex: "streamExists ?c1 = streamExists c"
    by (simp add: streamExists_def fun_eq_iff)
  from Cons.prems e have here: "streamExists c (sid (heap c r))" by simp
  from Cons.prems have "\<forall>(k, r) \<in> set es. streamExists ?c1 (sid (heap ?c1 r))"
    by (simp add: ex fr)
  from Cons.IH [OF this, unfolded fr] restart_send_sent [OF here] e
  show ?case by (simp add: restart_each_Cons_snd del: restart_each.simps)
qed

lemma resume_each_frame:
  "streams (resume_each c started) = streams c \<and>
   next_ref (resume_each c started) = next_ref c \<and>
   heap (resume_each c started) = heap c \<and>
   sent_messages (trace (resume_each c started)) = sent_messages (trace c)"
  by (induction c started rule: resume_each.induct)
     (simp_all add: restart_resume_frame restart_resume_sent)

lemma handleReconnection_frame:
  "streams (handleReconnection c) = streams c"
  "next_ref (handleReconnection c) = next_ref c"
  "heap (handleReconnection c) = heap c"
  using restart_each_frame [of c "Object_entries (streams c)"]
  by (simp_all add: handleReconnection_eq resume_each_frame)

lemma wellformed_handleReconnection: "wellformed c \<Longrightarrow> wellformed (handleReconnection c)"
  by (erule wellformed_frame) (simp_all add: handleReconnection_frame)

section \<open>The socket calls of one registration and of one unregistration\<close>

lemma registerStream_trace:
  "(streams c = [] \<and>
      (trace (snd (registerStream c message onMessage)) = trace c @ [(Connect, [])] \<or>
       trace (snd (registerStream c message onMessage)) =
         trace c @ [(Connect, []),
                    (Send message, Object_keys (streams c @ [(req_id message, next_ref c)]))] \<and>
       isConnected (socket (snd (registerStream c message onMessage))))) \<or>
   (streams c \<noteq> [] \<and>
      (trace (snd (registerStream c message onMessage)) = trace c \<or>
       trace (snd (registerStream c message onMessage)) =
         trace c @ [(Send message, Object_keys (streams c @ [(req_id message, next_ref c)]))]))"
proof (cases "streams c = []")
  case True
  then show ?thesis
    by (auto simp: registerStream_def start_def socket_defs Let_def prop_get_Undefined
        prop_set_absent length_Object_keys Object_keys_Nil
        split: list.splits option.splits prod.splits sum.splits if_splits)
next
  case False
  then show ?thesis
    by (auto simp: registerStream_def start_def socket_defs Let_def prop_get_Undefined
        prop_set_absent length_Object_keys
        split: list.splits option.splits prod.splits sum.splits if_splits)
qed

lemma unregisterStream_trace:
  "trace (snd (unregisterStream c k)) = trace c \<or>
   trace (snd (unregisterStream c k)) =
     trace c @ [(Send (unlistenMessage k), Object_keys (prop_delete (streams c) k))] \<or>
   trace (snd (unregisterStream c k)) =
     trace c @ [(Send (unlistenMessage k), Object_keys (prop_delete (streams c) k)),
                (Disconnect, Object_keys (prop_delete (streams c) k))]"
  by (auto simp: unregisterStream_def socket_defs Let_def
      split: list.splits option.splits prod.splits sum.splits if_splits)

section \<open>Routing and unregistration for ids that are not inherited names\<close>

lemma handleMessage_routes:
  "map_of (streams c) k = Some r \<Longrightarrow> in_req_id message = Some k \<Longrightarrow>
     handleMessage c message =
       (Inr (), log_event (OnMessage (onMessageHandler (heap c r)) message) c)"
  by (simp add: handleMessage_def prop_get_def)

lemma handleMessage_drops:
  "map_of (streams c) (case in_req_id message of None \<Rightarrow> [] | Some k \<Rightarrow> k) = None \<Longrightarrow>
   (case in_req_id message of None \<Rightarrow> [] | Some k \<Rightarrow> k) \<notin> set Object_prototype_names \<Longrightarrow>
     handleMessage c message = (Inr (), c)"
  by (simp add: handleMessage_def prop_get_def)

lemma unregisterStream_unknown_id:
  "map_of (streams c) k = None \<Longrightarrow> k \<notin> set Object_prototype_names \<Longrightarrow>
     unregisterStream c k = (Inr (), c)"
  by (simp add: unregisterStream_def prop_get_Undefined)

section \<open>The claims\<close>

subsection \<open>C1: the stream count and the connection\<close>

text \<open>
  C1 as stated says that after any sequence of \<^verbatim>\<open>registerStream\<close> and
  \<^verbatim>\<open>unregisterStream\<close> calls, failed sends included, the connection is connected if
  and only if the registry is not empty. On \<open>flaky_client\<close> the first registration
  connects the socket and then its send is rejected: the catch block deletes the record
  and rethrows, and nothing disconnects. The run ends connected with an empty registry.
\<close>

theorem connected_iff_streams_counterexample:
  "\<not> (isConnected (socket (run flaky_client [Register chain1 1])) \<longleftrightarrow>
      length (streams (run flaky_client [Register chain1 1])) \<noteq> 0)"
  by (simp add: flaky_client_def new_socket_def chain1_def socket_closed_def eval_defs)

text \<open>
  C1, amended. For every sequence of \<^verbatim>\<open>registerStream\<close> and
  \<^verbatim>\<open>unregisterStream\<close> calls on a new client whose socket starts disconnected,
  whatever the ids and whatever the socket calls resolve or reject with: the number of
  entries in the registry after the sequence is the number of registrations that resolved
  minus the number of \<^verbatim>\<open>unregisterStream\<close> calls of present ids; if that number is
  not zero the connection is connected; and if no call of the sequence was rejected, the
  connection is connected only if that number is not zero.
\<close>

theorem stream_count_and_connection:
  "length (streams (run (createStreamClient (new_socket rs) auto) xs)) =
     registered (createStreamClient (new_socket rs) auto) xs -
     unregistered (createStreamClient (new_socket rs) auto) xs \<and>
   (length (streams (run (createStreamClient (new_socket rs) auto) xs)) \<noteq> 0 \<longrightarrow>
      isConnected (socket (run (createStreamClient (new_socket rs) auto) xs))) \<and>
   (all_resolved (createStreamClient (new_socket rs) auto) xs \<longrightarrow>
      (isConnected (socket (run (createStreamClient (new_socket rs) auto) xs)) \<longleftrightarrow>
       length (streams (run (createStreamClient (new_socket rs) auto) xs)) \<noteq> 0))"
proof -
  let ?c = "createStreamClient (new_socket rs) auto"
  have s: "streams ?c = []" and n: "\<not> isConnected (socket ?c)"
    by (simp_all add: createStreamClient_def new_socket_def)
  from s have "distinct (map fst (streams ?c))" by simp
  from run_count [OF this, of xs] s
  have "length (streams (run ?c xs)) = registered ?c xs - unregistered ?c xs" by simp
  moreover from s have "streams ?c \<noteq> [] \<longrightarrow> isConnected (socket ?c)" by simp
  from run_connected_if_nonempty [OF this, of xs]
  have "length (streams (run ?c xs)) \<noteq> 0 \<longrightarrow> isConnected (socket (run ?c xs))" by simp
  moreover from s n have "isConnected (socket ?c) \<longleftrightarrow> streams ?c \<noteq> []" by simp
  from run_resolved_connected [OF this, of xs]
  have "all_resolved ?c xs \<longrightarrow>
      (isConnected (socket (run ?c xs)) \<longleftrightarrow> length (streams (run ?c xs)) \<noteq> 0)" by simp
  ultimately show ?thesis by blast
qed

theorem stream_count_and_connection_witness:
  "all_resolved reliable_client [Register chain1 1, Register chain2 2, Unregister ''chain.1''] \<and>
   length (streams (run reliable_client
     [Register chain1 1, Register chain2 2, Unregister ''chain.1''])) \<noteq> 0 \<and>
   length (streams (run reliable_client
     [Register chain1 1, Register chain2 2, Unregister ''chain.1''])) = 2 - 1 \<and>
   isConnected (socket (run reliable_client
     [Register chain1 1, Register chain2 2, Unregister ''chain.1'']))"
proof -
  let ?xs = "[Register chain1 1, Register chain2 2, Unregister ''chain.1'']"
  have a: "all_resolved reliable_client ?xs" by code_simp
  have b: "length (streams (run reliable_client ?xs)) \<noteq> 0" by code_simp
  have r: "registered reliable_client ?xs = 2" by code_simp
  have u: "unregistered reliable_client ?xs = 1" by code_simp
  from stream_count_and_connection [of "[]" None ?xs, folded reliable_client_def] a b
  show ?thesis unfolding r u by blast
qed

subsection \<open>C2: a registration whose send fails is rolled back\<close>

text \<open>
  C2. When \<^verbatim>\<open>registerStream\<close> gets as far as the send (the id reads as
  \<^verbatim>\<open>undefined\<close>, and the connect made for a first stream resolves) and the send is
  rejected with \<open>cause\<close>, it fails with the registration error that wraps
  \<open>cause\<close>, and the registry afterwards is the registry before: it has no entry for
  the id.
\<close>

theorem registerStream_send_failure_rolled_back:
  assumes "prop_get (streams c) (req_id message) = Undefined"
    and "outcomes (socket c) = (if streams c = [] then [None] else []) @ Some cause # rest"
  shows "fst (registerStream c message onMessage) = Inl (RegistrationError (req_id message) cause) \<and>
         streams (snd (registerStream c message onMessage)) = streams c \<and>
         map_of (streams (snd (registerStream c message onMessage))) (req_id message) = None"
proof -
  from assms(1) have absent: "map_of (streams c) (req_id message) = None"
    by (simp add: prop_get_Undefined)
  have r1: "fst (registerStream c message onMessage) =
              Inl (RegistrationError (req_id message) cause)"
    using assms absent
    by (cases "streams c = []")
      (simp_all add: registerStream_def start_def socket_defs length_Object_keys
         prop_set_absent Let_def)
  then have r2: "streams (snd (registerStream c message onMessage)) = streams c"
    by (simp add: registerStream_streams)
  with r1 absent show ?thesis by simp
qed

theorem registerStream_send_failure_rolled_back_witness:
  "fst (registerStream flaky_client chain1 1) =
     Inl (RegistrationError ''chain.1'' socket_closed) \<and>
   map_of (streams (snd (registerStream flaky_client chain1 1))) ''chain.1'' = None"
proof -
  have a: "prop_get (streams flaky_client) (req_id chain1) = Undefined" by code_simp
  have b: "outcomes (socket flaky_client) =
             (if streams flaky_client = [] then [None] else []) @
             Some socket_closed # []"
    by (simp add: flaky_client_def createStreamClient_def new_socket_def)
  have k: "req_id chain1 = ''chain.1''" by (simp add: chain1_def)
  from registerStream_send_failure_rolled_back [OF a b, of 1] show ?thesis
    unfolding k by blast
qed

subsection \<open>C3: a second registration under an active id\<close>

text \<open>
  C3. When the registry holds a record under the id of the message,
  \<^verbatim>\<open>registerStream\<close> fails with the duplicate error that names the id and changes
  nothing: registry, streams, socket and trace are as before, and an inbound message with
  that id is still delivered to the callback of the record that was there.
\<close>

theorem registerStream_duplicate_id:
  assumes "map_of (streams c) (req_id message) = Some r"
  shows "registerStream c message onMessage = (Inl (DuplicateStreamError (req_id message)), c) \<and>
         (in_req_id inbound = Some (req_id message) \<longrightarrow>
            handleMessage (snd (registerStream c message onMessage)) inbound =
              (Inr (), log_event (OnMessage (onMessageHandler (heap c r)) inbound) c))"
proof -
  from assms have "streams c \<noteq> []" by auto
  then have "length (Object_keys (streams c)) \<noteq> 0" by (simp add: length_Object_keys)
  moreover from assms have own: "prop_get (streams c) (req_id message) = Own r"
    by (simp add: prop_get_Own)
  ultimately have "registerStream c message onMessage =
      (Inl (DuplicateStreamError (req_id message)), c)"
    by (simp add: registerStream_def)
  with own show ?thesis by (simp add: handleMessage_def)
qed

theorem registerStream_duplicate_id_witness:
  "registerStream (snd (registerStream reliable_client chain1 1)) chain1 2 =
     (Inl (DuplicateStreamError ''chain.1''), snd (registerStream reliable_client chain1 1)) \<and>
   handleMessage
       (snd (registerStream (snd (registerStream reliable_client chain1 1)) chain1 2))
       table_delta =
     (Inr (), log_event (OnMessage 1 table_delta) (snd (registerStream reliable_client chain1 1)))"
proof -
  let ?c = "snd (registerStream reliable_client chain1 1)"
  have k: "req_id chain1 = ''chain.1''" by (simp add: chain1_def)
  have a: "map_of (streams ?c) (req_id chain1) = Some 0" by code_simp
  have b: "in_req_id table_delta = Some ''chain.1''" by (simp add: table_delta_def)
  have h: "onMessageHandler (heap ?c 0) = 1" by code_simp
  from registerStream_duplicate_id [OF a, of 2 table_delta] b show ?thesis
    unfolding k h by blast
qed


subsection \<open>C4: the start position of a restart\<close>

text \<open>
  C4. \<^verbatim>\<open>restart(marker?)\<close> on a registered stream sends the registration message
  with every field as it is but \<^verbatim>\<open>start_block\<close>, which is the position of the
  marker argument if one is given, else the position of the stream's stored marker if
  \<^verbatim>\<open>mark\<close> set one, else the start position of the registration message. The
  stored streams are left as they were, \<^verbatim>\<open>mark\<close> does not touch the registration
  message either, and \<^verbatim>\<open>mark\<close> followed by \<^verbatim>\<open>restart()\<close> sends the marked
  position.
\<close>

theorem restart_start_position:
  assumes "map_of (streams c) (sid (heap c r)) = Some r"
  shows "sent_messages (trace (snd (restart c r marker))) =
           sent_messages (trace c) @
           [(registrationMessage (heap c r))
              \<lparr>start_block :=
                 (case marker of
                    Some m \<Rightarrow> Some (atBlockNum m)
                  | None \<Rightarrow>
                      (case activeMarker (heap c r) of
                         Some m \<Rightarrow> Some (atBlockNum m)
                       | None \<Rightarrow> start_block (registrationMessage (heap c r))))\<rparr>] \<and>
         heap (snd (restart c r marker)) = heap c \<and>
         registrationMessage (heap (mark c r mk) r) = registrationMessage (heap c r) \<and>
         sent_messages (trace (snd (restart (mark c r mk) r None))) =
           sent_messages (trace c) @
           [(registrationMessage (heap c r))\<lparr>start_block := Some (atBlockNum mk)\<rparr>]"
  using assms
  by (auto simp add: restart_def restart_send_def restart_resume_def streamExists_def
      prop_get_def Let_def socket_defs mark_def sent_messages_append
      split: option.splits list.splits prod.splits sum.splits)

theorem restart_start_position_witness:
  "sent_messages (trace (snd (restart
       (mark (snd (registerStream reliable_client chain1 1)) 0 position5) 0 None))) =
     [chain1] @ [chain1\<lparr>start_block := Some 5\<rparr>] \<and>
   sent_messages (trace (snd (restart (snd (registerStream reliable_client chain1 1)) 0 None))) =
     [chain1] @ [chain1\<lparr>start_block := start_block chain1\<rparr>]"
proof -
  let ?c = "snd (registerStream reliable_client chain1 1)"
  have a: "map_of (streams ?c) (sid (heap ?c 0)) = Some 0" by code_simp
  have f1: "sent_messages (trace ?c) = [chain1]" by code_simp
  have f2: "registrationMessage (heap ?c 0) = chain1" by code_simp
  have f3: "atBlockNum position5 = 5" by (simp add: position5_def)
  have f4: "activeMarker (heap ?c 0) = None" by code_simp
  from restart_start_position [OF a, of None position5] show ?thesis
    unfolding f1 f2 f3 f4 option.case by blast
qed

subsection \<open>C5: reconnection\<close>

text \<open>
  C5. In a reachable state (\<open>wellformed\<close>), a reconnection notification does nothing
  when \<^verbatim>\<open>autoRestartStreamsOnReconnect\<close> is false. When it is true, which is the
  default of \<^verbatim>\<open>createStreamClient\<close>, the messages sent are exactly one restart
  message per registry entry, in the order of \<^verbatim>\<open>Object.keys\<close>, and the entries
  enumerated are the entries of the registry, each once. This holds whatever the socket's
  sends resolve or reject with, so a restart that fails stops no other restart: in the
  instance below the socket rejects the send of the first of two restarts, and both
  restart messages are sent.
\<close>

theorem handleReconnection_restarts_every_stream:
  assumes "wellformed c"
  shows "(autoRestartStreamsOnReconnect c = False \<longrightarrow> handleReconnection c = c) \<and>
         (autoRestartStreamsOnReconnect c \<longrightarrow>
            sent_messages (trace (handleReconnection c)) =
              sent_messages (trace c) @
              map (\<lambda>(k, r). (registrationMessage (heap c r))
                     \<lparr>start_block :=
                        (case activeMarker (heap c r) of
                           Some m \<Rightarrow> Some (atBlockNum m)
                         | None \<Rightarrow> start_block (registrationMessage (heap c r)))\<rparr>)
                (Object_entries (streams c))) \<and>
         mset (Object_entries (streams c)) = mset (streams c) \<and>
         autoRestartStreamsOnReconnect (createStreamClient sock None)"
proof -
  from assms have "\<forall>(k, r) \<in> set (streams c). sid (heap c r) = k"
    by (auto simp: wellformed_def)
  then have "\<forall>(k, r) \<in> set (Object_entries (streams c)). streamExists c (sid (heap c r))"
    by (force simp: set_Object_entries streamExists_def prop_get_def map_of_eq_None_iff
        split: option.splits)
  from restart_each_sent [OF this]
  have "autoRestartStreamsOnReconnect c \<longrightarrow>
            sent_messages (trace (handleReconnection c)) =
              sent_messages (trace c) @
              map (\<lambda>(k, r). (registrationMessage (heap c r))
                     \<lparr>start_block :=
                        (case activeMarker (heap c r) of
                           Some m \<Rightarrow> Some (atBlockNum m)
                         | None \<Rightarrow> start_block (registrationMessage (heap c r)))\<rparr>)
                (Object_entries (streams c))"
    by (simp add: handleReconnection_eq resume_each_frame)
  then show ?thesis
    by (simp add: handleReconnection_eq mset_Object_entries createStreamClient_def)
qed

theorem handleReconnection_restarts_every_stream_witness:
  "wellformed (mark (run unstable_client [Register chain1 1, Register chain2 2]) 0 position5) \<and>
   fst (restart_send
          (mark (run unstable_client [Register chain1 1, Register chain2 2]) 0 position5)
          0 None) = Inl socket_closed \<and>
   sent_messages (trace (handleReconnection
       (mark (run unstable_client [Register chain1 1, Register chain2 2]) 0 position5))) =
     [chain1, chain2, chain1\<lparr>start_block := Some 5\<rparr>, chain2]"
proof -
  let ?c = "mark (run unstable_client [Register chain1 1, Register chain2 2]) 0 position5"
  have w: "wellformed ?c"
    unfolding unstable_client_def
    by (intro wellformed_mark wellformed_run wellformed_createStreamClient)
  have a: "autoRestartStreamsOnReconnect ?c" by code_simp
  have f: "fst (restart_send ?c 0 None) = Inl socket_closed" by code_simp
  have e: "sent_messages (trace ?c) @
           map (\<lambda>(k, r). (registrationMessage (heap ?c r))
                  \<lparr>start_block :=
                     (case activeMarker (heap ?c r) of
                        Some m \<Rightarrow> Some (atBlockNum m)
                      | None \<Rightarrow> start_block (registrationMessage (heap ?c r)))\<rparr>)
             (Object_entries (streams ?c)) =
           [chain1, chain2, chain1\<lparr>start_block := Some 5\<rparr>, chain2]"
    by code_simp
  from handleReconnection_restarts_every_stream [OF w] a
  have "sent_messages (trace (handleReconnection ?c)) =
          sent_messages (trace ?c) @
           map (\<lambda>(k, r). (registrationMessage (heap ?c r))
                  \<lparr>start_block :=
                     (case activeMarker (heap ?c r) of
                        Some m \<Rightarrow> Some (atBlockNum m)
                      | None \<Rightarrow> start_block (registrationMessage (heap ?c r)))\<rparr>)
             (Object_entries (streams ?c))"
    by blast
  with e w f show ?thesis by (simp only:)
qed

subsection \<open>C6: the order of registry updates and socket calls\<close>

text \<open>
  C6. Each call only appends to the trace. Every send of the registration message that
  \<^verbatim>\<open>registerStream\<close> appends was made when \<^verbatim>\<open>Object.keys\<close> of the registry
  already held the id of the message; when the registry was empty at the call, the entry
  just before that send is the \<^verbatim>\<open>connect\<close> of the same call, which resolved (the
  socket is connected). Every send of the unlisten message that \<^verbatim>\<open>unregisterStream\<close>
  appends was made when \<^verbatim>\<open>Object.keys\<close> of the registry no longer held the id.
\<close>

theorem registry_updates_precede_sends:
  "take (length (trace c)) (trace (snd (registerStream c message onMessage))) = trace c \<and>
   (\<forall>i. length (trace c) \<le> i \<and> i < length (trace (snd (registerStream c message onMessage))) \<and>
        fst (trace (snd (registerStream c message onMessage)) ! i) = Send message \<longrightarrow>
        req_id message \<in> set (snd (trace (snd (registerStream c message onMessage)) ! i)) \<and>
        (length (streams c) = 0 \<longrightarrow>
           length (trace c) < i \<and>
           fst (trace (snd (registerStream c message onMessage)) ! (i - 1)) = Connect \<and>
           isConnected (socket (snd (registerStream c message onMessage))))) \<and>
   take (length (trace c)) (trace (snd (unregisterStream c k))) = trace c \<and>
   (\<forall>i. length (trace c) \<le> i \<and> i < length (trace (snd (unregisterStream c k))) \<and>
        fst (trace (snd (unregisterStream c k)) ! i) = Send (unlistenMessage k) \<longrightarrow>
        k \<notin> set (snd (trace (snd (unregisterStream c k)) ! i)))"
proof -
  have reg:
    "take (length (trace c)) (trace (snd (registerStream c message onMessage))) = trace c \<and>
     (\<forall>i. length (trace c) \<le> i \<and>
          i < length (trace (snd (registerStream c message onMessage))) \<and>
          fst (trace (snd (registerStream c message onMessage)) ! i) = Send message \<longrightarrow>
          req_id message \<in> set (snd (trace (snd (registerStream c message onMessage)) ! i)) \<and>
          (length (streams c) = 0 \<longrightarrow>
             length (trace c) < i \<and>
             fst (trace (snd (registerStream c message onMessage)) ! (i - 1)) = Connect \<and>
             isConnected (socket (snd (registerStream c message onMessage)))))"
    using registerStream_trace [of c message onMessage]
      key_in_Object_keys_snoc [of "req_id message" "streams c" "next_ref c"]
    by (elim disjE conjE) (auto simp: nth_append less_Suc_eq nth_Cons split: nat.splits)
  have unreg:
    "take (length (trace c)) (trace (snd (unregisterStream c k))) = trace c \<and>
     (\<forall>i. length (trace c) \<le> i \<and> i < length (trace (snd (unregisterStream c k))) \<and>
          fst (trace (snd (unregisterStream c k)) ! i) = Send (unlistenMessage k) \<longrightarrow>
          k \<notin> set (snd (trace (snd (unregisterStream c k)) ! i)))"
    using unregisterStream_trace [of c k]
      key_notin_Object_keys_prop_delete [of k "streams c"]
    by (elim disjE) (auto simp: nth_append less_Suc_eq nth_Cons split: nat.splits)
  from reg unreg show ?thesis by blast
qed

theorem registry_updates_precede_sends_witness:
  "fst (trace (snd (registerStream reliable_client chain1 1)) ! 1) = Send chain1 \<and>
   req_id chain1 \<in> set (snd (trace (snd (registerStream reliable_client chain1 1)) ! 1)) \<and>
   fst (trace (snd (registerStream reliable_client chain1 1)) ! (1 - 1)) = Connect \<and>
   fst (trace (snd (unregisterStream (snd (registerStream reliable_client chain1 1))
                      ''chain.1'')) ! 2) = Send (unlistenMessage ''chain.1'') \<and>
   ''chain.1'' \<notin> set (snd (trace (snd (unregisterStream
                      (snd (registerStream reliable_client chain1 1)) ''chain.1'')) ! 2))"
proof -
  let ?c0 = reliable_client
  let ?c1 = "snd (registerStream reliable_client chain1 1)"
  let ?c2 = "snd (unregisterStream ?c1 ''chain.1'')"
  have a: "length (trace ?c0) \<le> 1 \<and> 1 < length (trace ?c1) \<and>
           fst (trace ?c1 ! 1) = Send chain1"
    by code_simp
  have b: "length (streams ?c0) = 0" by code_simp
  from registry_updates_precede_sends [where c = ?c0 and message = chain1 and onMessage = 1] a b
  have r: "req_id chain1 \<in> set (snd (trace ?c1 ! 1)) \<and> fst (trace ?c1 ! (1 - 1)) = Connect"
    by blast
  have d: "length (trace ?c1) \<le> 2 \<and> 2 < length (trace ?c2) \<and>
           fst (trace ?c2 ! 2) = Send (unlistenMessage ''chain.1'')"
    by code_simp
  from registry_updates_precede_sends [where c = ?c1 and k = "''chain.1''"] d
  have u: "''chain.1'' \<notin> set (snd (trace ?c2 ! 2))"
    by blast
  from a r d u show ?thesis by blast
qed

subsection \<open>C7: routing of inbound messages\<close>

text \<open>
  C7 says that an inbound message whose id matches no registered record is dropped with
  no callback and no error. \<^verbatim>\<open>handleMessage\<close> reads \<^verbatim>\<open>this.streams[id]\<close> and
  compares with \<^verbatim>\<open>undefined\<close>; for an id that names a property of
  \<^verbatim>\<open>Object.prototype\<close> the read yields that property, and the call of its
  \<^verbatim>\<open>onMessage\<close> throws. Here the registry is empty and the id is
  \<^verbatim>\<open>constructor\<close>. (For every other id the claim holds: \<open>handleMessage_routes\<close>
  and \<open>handleMessage_drops\<close>.)
\<close>

theorem handleMessage_inherited_name_throws:
  "streams reliable_client = [] \<and>
   handleMessage reliable_client stray_error =
     (Inl (TypeError ''stream.onMessage is not a function''), reliable_client)"
  by (simp add: reliable_client_def new_socket_def stray_error_def eval_defs handleMessage_def)

subsection \<open>C8: restart of a stream that is not registered\<close>

text \<open>
  C8 as stated says that \<^verbatim>\<open>restart\<close> on a stream that is no longer in the
  registry fails and sends nothing. The check of \<^verbatim>\<open>restart\<close> is
  \<^verbatim>\<open>streamExists(this.id)\<close>, a question about the id and not about the stream.
  Register a stream under \<^verbatim>\<open>chain.1\<close> (it is stream \<open>0\<close>), unregister it,
  and register another stream under the same id (stream \<open>1\<close>): the registry holds
  stream \<open>1\<close> only, and \<^verbatim>\<open>restart\<close> on stream \<open>0\<close> finds the id,
  resolves and sends the registration message of stream \<open>0\<close> once more.
\<close>

theorem restart_stale_stream_counterexample:
  "streams (run reliable_client
      [Register chain1 1, Unregister ''chain.1'', Register chain1 2]) = [(''chain.1'', 1)] \<and>
   0 \<notin> snd ` set (streams (run reliable_client
      [Register chain1 1, Unregister ''chain.1'', Register chain1 2])) \<and>
   fst (restart (run reliable_client
      [Register chain1 1, Unregister ''chain.1'', Register chain1 2]) 0 None) = Inr () \<and>
   sent_messages (trace (snd (restart (run reliable_client
      [Register chain1 1, Unregister ''chain.1'', Register chain1 2]) 0 None))) =
     sent_messages (trace (run reliable_client
      [Register chain1 1, Unregister ''chain.1'', Register chain1 2])) @ [chain1]"
proof -
  let ?c = "run reliable_client [Register chain1 1, Unregister ''chain.1'', Register chain1 2]"
  have a: "streams ?c = [(''chain.1'', 1)]" by code_simp
  have b: "0 \<notin> snd ` set (streams ?c)" by code_simp
  have d: "fst (restart ?c 0 None) = Inr ()" by code_simp
  have e: "sent_messages (trace (snd (restart ?c 0 None))) =
             sent_messages (trace ?c) @ [chain1]"
    by code_simp
  from a b d e show ?thesis by blast
qed

text \<open>
  C8, amended. In a reachable state, \<^verbatim>\<open>restart\<close> on a stream under whose id the
  registry holds no record (the id was never registered, or it was unregistered and not
  registered again) fails with the not-registered error that names the id and leaves the
  state as it was: no message is sent.
\<close>

theorem restart_unregistered_stream:
  assumes "wellformed c" and "r < next_ref c"
    and "map_of (streams c) (sid (heap c r)) = None"
  shows "restart c r marker = (Inl (StreamNotRegisteredError (sid (heap c r))), c) \<and>
         sent_messages (trace (snd (restart c r marker))) = sent_messages (trace c)"
proof -
  from assms(1,2) have "sid (heap c r) \<notin> set Object_prototype_names"
    by (simp add: wellformed_def)
  with assms(3) show ?thesis
    by (simp add: restart_def restart_send_def streamExists_def prop_get_def Let_def)
qed

theorem restart_unregistered_stream_witness:
  "restart (run reliable_client [Register chain1 1, Unregister ''chain.1'']) 0 None =
     (Inl (StreamNotRegisteredError ''chain.1''),
      run reliable_client [Register chain1 1, Unregister ''chain.1''])"
proof -
  let ?c = "run reliable_client [Register chain1 1, Unregister ''chain.1'']"
  have w: "wellformed ?c"
    unfolding reliable_client_def
    by (intro wellformed_run wellformed_createStreamClient)
  have a: "0 < next_ref ?c" by code_simp
  have b: "map_of (streams ?c) (sid (heap ?c 0)) = None" by code_simp
  have s: "sid (heap ?c 0) = ''chain.1''" by code_simp
  from restart_unregistered_stream [OF w a b, of None] show ?thesis
    unfolding s by blast
qed

subsection \<open>C9: unregistering an unknown id\<close>

text \<open>
  C9 says that \<^verbatim>\<open>unregisterStream\<close> of an id with no record is a no-op that sends
  nothing and does not touch the connection. The guard of \<^verbatim>\<open>unregisterStream\<close> is
  \<^verbatim>\<open>this.streams[id] === undefined\<close>, which is false for an id that names a property
  of \<^verbatim>\<open>Object.prototype\<close>: on a new client, with an empty registry, the call sends
  the unlisten message and then disconnects, and on a client with one stream it sends the
  unlisten message over the connection of that stream. (For every other unknown id the
  claim holds: \<open>unregisterStream_unknown_id\<close>.)
\<close>

theorem unregisterStream_inherited_name_sends:
  "streams reliable_client = [] \<and>
   fst (unregisterStream reliable_client ''constructor'') = Inr () \<and>
   trace (snd (unregisterStream reliable_client ''constructor'')) =
     [(Send (unlistenMessage ''constructor''), []), (Disconnect, [])] \<and>
   map_of (streams (snd (registerStream reliable_client chain1 1))) ''constructor'' = None \<and>
   sent_messages (trace (snd (unregisterStream
       (snd (registerStream reliable_client chain1 1)) ''constructor''))) =
     [chain1, unlistenMessage ''constructor'']"
  by (simp add: reliable_client_def new_socket_def chain1_def eval_defs)

subsection \<open>C10: an unregistration whose send fails\<close>

text \<open>
  C10. When the registry holds a record under the id and the send of the unlisten message
  is rejected with \<open>cause\<close>, \<^verbatim>\<open>unregisterStream\<close> fails with \<open>cause\<close>
  itself; the record is gone from the registry, and was gone when the send was made; no
  \<^verbatim>\<open>disconnect\<close> is called and the socket is as connected as before. When that
  record was the only one of a connected client, the client ends connected with no
  stream.
\<close>

theorem unregisterStream_send_failure_not_rolled_back:
  assumes "map_of (streams c) k = Some r"
    and "outcomes (socket c) = Some cause # rest"
  shows "fst (unregisterStream c k) = Inl cause \<and>
         streams (snd (unregisterStream c k)) = prop_delete (streams c) k \<and>
         map_of (streams (snd (unregisterStream c k))) k = None \<and>
         trace (snd (unregisterStream c k)) =
           trace c @ [(Send (unlistenMessage k), Object_keys (prop_delete (streams c) k))] \<and>
         isConnected (socket (snd (unregisterStream c k))) = isConnected (socket c) \<and>
         (isConnected (socket c) \<and> length (streams c) = 1 \<longrightarrow>
            isConnected (socket (snd (unregisterStream c k))) \<and>
            length (streams (snd (unregisterStream c k))) = 0)"
proof -
  from assms(1) have own: "prop_get (streams c) k = Own r" by (simp add: prop_get_Own)
  with assms(2) have eq: "unregisterStream c k =
           (Inl cause,
            c\<lparr>streams := prop_delete (streams c) k,
              trace := trace c @
                [(Send (unlistenMessage k), Object_keys (prop_delete (streams c) k))],
              socket := (socket c)\<lparr>outcomes := rest\<rparr>\<rparr>)"
    by (simp add: unregisterStream_def socket_defs Let_def)
  have "length (streams c) = 1 \<Longrightarrow> prop_delete (streams c) k = []"
  proof -
    assume "length (streams c) = 1"
    then obtain a where a: "streams c = [a]" by (cases "streams c") auto
    with assms(1) have "fst a = k" by (cases a) (auto split: if_splits)
    with a show ?thesis by (cases a) (simp add: prop_delete_def)
  qed
  with eq show ?thesis by (simp add: map_of_prop_delete)
qed

theorem unregisterStream_send_failure_not_rolled_back_witness:
  "fst (unregisterStream (snd (registerStream fragile_client chain1 1)) ''chain.1'') =
     Inl socket_closed \<and>
   isConnected (socket (snd (unregisterStream
     (snd (registerStream fragile_client chain1 1)) ''chain.1''))) \<and>
   length (streams (snd (unregisterStream
     (snd (registerStream fragile_client chain1 1)) ''chain.1''))) = 0"
proof -
  let ?c = "snd (registerStream fragile_client chain1 1)"
  have a: "map_of (streams ?c) ''chain.1'' = Some 0" by code_simp
  have b: "outcomes (socket ?c) = Some socket_closed # []" by code_simp
  have d: "isConnected (socket ?c) \<and> length (streams ?c) = 1" by code_simp
  from unregisterStream_send_failure_not_rolled_back [OF a b] d show ?thesis
    by blast
qed

end
